theory Spec2Isabelle
  imports Main "HOL-Library.Multiset"
begin

section \<open>Data model (src/types.ts)\<close>

datatype Suit = HEARTS | DIAMONDS | CLUBS | SPADES

datatype Rank = ACE | TWO | THREE | FOUR | FIVE | SIX | SEVEN | EIGHT | NINE | TEN
  | JACK | QUEEN | KING

text \<open>The string values of the two enums, used to build a card's \<open>id\<close>.\<close>

fun suit_value :: "Suit \<Rightarrow> string" where
  "suit_value HEARTS = ''hearts''"
| "suit_value DIAMONDS = ''diamonds''"
| "suit_value CLUBS = ''clubs''"
| "suit_value SPADES = ''spades''"

fun rank_value :: "Rank \<Rightarrow> string" where
  "rank_value ACE = ''A''"
| "rank_value TWO = ''2''"
| "rank_value THREE = ''3''"
| "rank_value FOUR = ''4''"
| "rank_value FIVE = ''5''"
| "rank_value SIX = ''6''"
| "rank_value SEVEN = ''7''"
| "rank_value EIGHT = ''8''"
| "rank_value NINE = ''9''"
| "rank_value TEN = ''10''"
| "rank_value JACK = ''J''"
| "rank_value QUEEN = ''Q''"
| "rank_value KING = ''K''"

text \<open>Interface \<open>CardData\<close>; the field \<open>id\<close> is named \<open>card_id\<close> here.\<close>

text \<open>A card argument is written \<open>crd\<close>: \<open>card\<close> is the cardinality of a set in HOL.\<close>

record CardData =
  card_id :: string
  suit :: Suit
  rank :: Rank

datatype GameStatus = WAITING | PLAYING | CHOOSING_SUIT | GAME_OVER

text \<open>The type \<open>'player' | 'ai'\<close> of \<open>currentTurn\<close>, \<open>winner\<close> and the \<open>turn\<close> arguments.\<close>

datatype Turn = PLAYER | AI

text \<open>
  The status line \<open>lastAction\<close> is a template string in the source. Each template is a
  constructor here, carrying the values the template interpolates:
  \<^item> \<open>Welcome\<close>: the text of the initial state;
  \<^item> \<open>GameStarted\<close>: the text set by \<open>initGame\<close>;
  \<^item> \<open>DeckExhausted\<close>: the text set by \<open>drawCard\<close> when no card can be drawn;
  \<^item> \<open>Drew turn\<close>: the "drew a card" text of \<open>drawCard\<close>;
  \<^item> \<open>Played turn rank suit chosen\<close>: the text of \<open>playCard\<close>, whose last sentence names
    the chosen suit only when the computer plays an eight;
  \<^item> \<open>Declared suit\<close>: the text of \<open>selectSuit\<close>.
\<close>

datatype Action = Welcome | GameStarted | DeckExhausted | Drew Turn
  | Played Turn Rank Suit "Suit option" | Declared Suit

record GameState =
  deck :: "CardData list"
  discardPile :: "CardData list"
  playerHand :: "CardData list"
  aiHand :: "CardData list"
  currentSuit :: "Suit option"
  currentTurn :: Turn
  status :: GameStatus
  winner :: "Turn option"
  lastAction :: Action

section \<open>Rule evaluator (gameLogic: isValidMove)\<close>

text \<open>
  \<open>currentSuit || topCard.suit\<close>: every suit value is a non-empty string, hence truthy, so
  the left operand is taken exactly when it is not \<open>null\<close>.
\<close>

definition isValidMove :: "CardData \<Rightarrow> CardData \<Rightarrow> Suit option \<Rightarrow> bool" where
  "isValidMove crd topCard cur =
     (if rank crd = EIGHT then True
      else let targetSuit = (case cur of Some s \<Rightarrow> s | None \<Rightarrow> suit topCard)
           in suit crd = targetSuit \<or> rank crd = rank topCard)"

section \<open>Card model (gameLogic: shuffle, createDeck)\<close>

text \<open>
  \<open>shuffle\<close> copies its argument and runs \<open>for (i = length - 1; i > 0; i--)\<close>, swapping
  positions \<open>i\<close> and \<open>j = Math.floor(Math.random() * (i + 1))\<close>. \<open>Math.random()\<close> lies in
  \<open>[0, 1)\<close>, so \<open>j\<close> is some index in \<open>0..i\<close>. The random source is the parameter
  \<open>rnd\<close>: \<open>rnd i\<close> is the number drawn in iteration \<open>i\<close>, reduced into \<open>0..i\<close>; the
  theorems hold for every \<open>rnd\<close>, hence for every run. The destructuring swap reads both
  elements before it writes either.
\<close>

fun shuffleLoop :: "(nat \<Rightarrow> nat) \<Rightarrow> nat \<Rightarrow> 'a list \<Rightarrow> 'a list" where
  "shuffleLoop rnd 0 newArray = newArray"
| "shuffleLoop rnd (Suc n) newArray =
     (let i = Suc n; j = rnd i mod (i + 1)
      in shuffleLoop rnd n (newArray[i := newArray ! j, j := newArray ! i]))"

definition shuffle :: "(nat \<Rightarrow> nat) \<Rightarrow> 'a list \<Rightarrow> 'a list" where
  "shuffle rnd array = shuffleLoop rnd (length array - 1) array"

definition suits :: "Suit list" where
  "suits = [HEARTS, DIAMONDS, CLUBS, SPADES]"

definition ranks :: "Rank list" where
  "ranks = [ACE, TWO, THREE, FOUR, FIVE, SIX, SEVEN, EIGHT, NINE, TEN, JACK, QUEEN, KING]"

text \<open>The object pushed by the inner loop of \<open>createDeck\<close>, with \<open>id = `${rank}-${suit}`\<close>.\<close>

definition newCard :: "Suit \<Rightarrow> Rank \<Rightarrow> CardData" where
  "newCard s r = \<lparr>card_id = rank_value r @ ''-'' @ suit_value s, suit = s, rank = r\<rparr>"

text \<open>The array \<open>deck\<close> of \<open>createDeck\<close> when the two nested loops have run.\<close>

definition unshuffledDeck :: "CardData list" where
  "unshuffledDeck = concat (map (\<lambda>s. map (\<lambda>r. newCard s r) ranks) suits)"

definition createDeck :: "(nat \<Rightarrow> nat) \<Rightarrow> CardData list" where
  "createDeck rnd = shuffle rnd unshuffledDeck"

section \<open>Game engine (App: initGame, drawCard, playCard, selectSuit)\<close>

text \<open>\<open>turn === 'player' ? 'ai' : 'player'\<close>\<close>

fun other :: "Turn \<Rightarrow> Turn" where
  "other PLAYER = AI"
| "other AI = PLAYER"

text \<open>\<open>prev[turn === 'player' ? 'playerHand' : 'aiHand']\<close>, read and written.\<close>

definition hand :: "Turn \<Rightarrow> GameState \<Rightarrow> CardData list" where
  "hand turn s = (if turn = PLAYER then playerHand s else aiHand s)"

definition setHand :: "Turn \<Rightarrow> CardData list \<Rightarrow> GameState \<Rightarrow> GameState" where
  "setHand turn h s = (if turn = PLAYER then s\<lparr>playerHand := h\<rparr> else s\<lparr>aiHand := h\<rparr>)"

text \<open>
  \<open>initGame\<close>: two \<open>splice(0, 8)\<close> remove and return the first eight cards each, \<open>pop()\<close>
  removes and returns the last card. The deck has 52 cards, so 36 are left when \<open>pop\<close>
  runs (lemma \<open>length_createDeck\<close>).
\<close>

definition initGame :: "(nat \<Rightarrow> nat) \<Rightarrow> GameState" where
  "initGame rnd =
     (let fullDeck = createDeck rnd;
          pHand = take 8 fullDeck;
          fullDeck1 = drop 8 fullDeck;
          aHand = take 8 fullDeck1;
          fullDeck2 = drop 8 fullDeck1;
          firstDiscard = last fullDeck2;
          fullDeck3 = butlast fullDeck2
      in \<lparr>deck = fullDeck3, discardPile = [firstDiscard], playerHand = pHand,
          aiHand = aHand, currentSuit = None, currentTurn = PLAYER, status = PLAYING,
          winner = None, lastAction = GameStarted\<rparr>)"

text \<open>
  \<open>drawCard\<close>. In the reshuffle branch the discard pile has at least two cards, so
  \<open>slice(0, -1)\<close> is not empty and \<open>pop()\<close> returns a card; in the last branch the deck
  is not empty.
\<close>

definition drawCard :: "(nat \<Rightarrow> nat) \<Rightarrow> Turn \<Rightarrow> GameState \<Rightarrow> GameState" where
  "drawCard rnd turn prev =
     (if length (deck prev) = 0 then
        (if length (discardPile prev) \<le> 1 then
           prev\<lparr>lastAction := DeckExhausted, currentTurn := other turn\<rparr>
         else
           let topCard = discardPile prev ! (length (discardPile prev) - 1);
               shuffled = shuffle rnd (butlast (discardPile prev));
               crd = last shuffled;
               newDeck = butlast shuffled
           in setHand turn (hand turn prev @ [crd])
                (prev\<lparr>deck := newDeck, discardPile := [topCard],
                   lastAction := Drew turn, currentTurn := other turn\<rparr>))
      else
        let crd = last (deck prev);
            newDeck = butlast (deck prev);
            newHand = hand turn prev @ [crd]
        in setHand turn newHand
             (prev\<lparr>deck := newDeck, lastAction := Drew turn, currentTurn := other turn\<rparr>))"

text \<open>
  The suit the computer declares (inside \<open>playCard\<close>): \<open>counts\<close> starts at zero for the
  four suits, \<open>forEach\<close> increments the entry of each card's suit, and \<open>reduce\<close> without an
  initial value folds over \<open>Object.keys(counts)\<close>, the keys in insertion order hearts,
  diamonds, clubs, spades, starting from the first.
\<close>

definition countSuits :: "CardData list \<Rightarrow> Suit \<Rightarrow> nat" where
  "countSuits newHand =
     foldl (\<lambda>counts c. counts(suit c := counts (suit c) + 1)) (\<lambda>_. 0) newHand"

definition chosenSuitOf :: "CardData list \<Rightarrow> Suit" where
  "chosenSuitOf newHand =
     (let counts = countSuits newHand
      in foldl (\<lambda>a b. if counts a > counts b then a else b) (hd suits) (tl suits))"

definition playCard :: "CardData \<Rightarrow> Turn \<Rightarrow> GameState \<Rightarrow> GameState" where
  "playCard crd turn prev =
     (let newHand = filter (\<lambda>c. card_id c \<noteq> card_id crd) (hand turn prev);
          isEight = (rank crd = EIGHT);
          nextStatus = (if isEight \<and> turn = PLAYER then CHOOSING_SUIT else PLAYING);
          chosenSuit = (if isEight \<and> turn = AI then Some (chosenSuitOf newHand) else None);
          win = (if length newHand = 0 then Some turn else None)
      in setHand turn newHand
           (prev\<lparr>discardPile := discardPile prev @ [crd],
              currentSuit := chosenSuit,
              currentTurn := (if isEight \<and> turn = PLAYER then PLAYER else other turn),
              status := (if win \<noteq> None then GAME_OVER else nextStatus),
              winner := win,
              lastAction := Played turn (rank crd) (suit crd) chosenSuit\<rparr>))"

definition selectSuit :: "Suit \<Rightarrow> GameState \<Rightarrow> GameState" where
  "selectSuit s prev =
     prev\<lparr>currentSuit := Some s, status := PLAYING, currentTurn := AI,
       lastAction := Declared s\<rparr>"

text \<open>The two buttons that return to the menu: \<open>setState(s => ({ ...s, status: 'waiting' }))\<close>.\<close>

definition backToMenu :: "GameState \<Rightarrow> GameState" where
  "backToMenu s = s\<lparr>status := WAITING\<rparr>"

section \<open>The callers' guards (App: the render function and the effect)\<close>

text \<open>
  The player's hand is rendered by \<open>state.playerHand.map\<close>; each card gets
  \<open>playable = currentTurn === 'player' && status === 'playing' && isValidMove(card, topCard, currentSuit)\<close>
  where \<open>topCard = discardPile[discardPile.length - 1]\<close>, and the card component installs
  the click handler \<open>playCard(card, 'player')\<close> only when \<open>playable\<close> holds. So a click
  reaches \<open>playCard\<close> only for a card of the hand, here the one at index \<open>i\<close>, that is
  playable; any other click has no handler and leaves the state as it is. On an empty
  discard pile \<open>topCard\<close> is \<open>undefined\<close> in the source and \<open>last []\<close> here; the
  theorems about the callers assume a top card, which every reachable state has
  (lemma \<open>reachable_discardPile\<close>).
\<close>

definition playable :: "CardData \<Rightarrow> GameState \<Rightarrow> bool" where
  "playable crd state =
     (currentTurn state = PLAYER \<and> status state = PLAYING \<and>
      isValidMove crd (last (discardPile state)) (currentSuit state))"

definition clickHandCard :: "nat \<Rightarrow> GameState \<Rightarrow> GameState" where
  "clickHandCard i state =
     (if i < length (playerHand state) then
        let crd = playerHand state ! i
        in if playable crd state then playCard crd PLAYER state else state
      else state)"

text \<open>
  The four suit buttons, each with the handler \<open>selectSuit(suit)\<close>, are rendered only
  while \<open>status === 'choosing_suit'\<close>.
\<close>

definition clickSuit :: "Suit \<Rightarrow> GameState \<Rightarrow> GameState" where
  "clickSuit s state = (if status state = CHOOSING_SUIT then selectSuit s state else state)"

text \<open>
  The computer's move, the body of the effect's timer callback. The effect runs only under
  \<open>status === 'playing' && currentTurn === 'ai' && !winner\<close>. \<open>pick\<close> is the number drawn
  by \<open>Math.floor(Math.random() * nonEights.length)\<close>, reduced into the index range, and
  \<open>rnd\<close> is the random source of a reshuffle inside \<open>drawCard\<close>. The callback chooses the
  card from the state the effect was scheduled in, and \<open>playCard\<close> and \<open>drawCard\<close> update
  the state at hand when they run; the model takes the two to be the same state, as they
  are when nothing else happens in between.
\<close>

definition aiMove :: "nat \<Rightarrow> (nat \<Rightarrow> nat) \<Rightarrow> GameState \<Rightarrow> GameState" where
  "aiMove pick rnd state =
     (if status state = PLAYING \<and> currentTurn state = AI \<and> winner state = None then
        let topCard = last (discardPile state);
            playableCards = filter (\<lambda>c. isValidMove c topCard (currentSuit state)) (aiHand state)
        in if length playableCards > 0 then
             let nonEights = filter (\<lambda>c. rank c \<noteq> EIGHT) playableCards;
                 cardToPlay = (if length nonEights > 0
                               then nonEights ! (pick mod length nonEights)
                               else playableCards ! 0)
             in playCard cardToPlay AI state
           else drawCard rnd AI state
      else state)"

section \<open>Suit counts, as the specification words the computer's choice\<close>

text \<open>The number of cards of a suit in a hand, the highest of the four, and the suits that reach it, in the order of the enumeration.\<close>

definition suitCount :: "CardData list \<Rightarrow> Suit \<Rightarrow> nat" where
  "suitCount h su = length (filter (\<lambda>c. suit c = su) h)"

definition maxSuitCount :: "CardData list \<Rightarrow> nat" where
  "maxSuitCount h =
     max (max (suitCount h HEARTS) (suitCount h DIAMONDS))
         (max (suitCount h CLUBS) (suitCount h SPADES))"

definition bestSuits :: "CardData list \<Rightarrow> Suit list" where
  "bestSuits h = filter (\<lambda>su. suitCount h su = maxSuitCount h) suits"

text \<open>
  The position of a suit in \<open>Object.keys(counts)\<close>, that is in \<open>suits\<close>: the fixed order
  by which a tie between suits of equal count is settled, the later suit first.
\<close>

fun suitPriority :: "Suit \<Rightarrow> nat" where
  "suitPriority HEARTS = 0"
| "suitPriority DIAMONDS = 1"
| "suitPriority CLUBS = 2"
| "suitPriority SPADES = 3"

section \<open>Reachable states and the card partition\<close>

text \<open>
  The states after \<open>initGame\<close>, closed under the engine's operations. A play is of a card
  of the mover's hand; nothing else is asked of the caller here, so the set covers
  every order in which the operations may be invoked.
\<close>

inductive reachable :: "GameState \<Rightarrow> bool" where
  after_init: "reachable (initGame rnd)"
| after_draw: "reachable s \<Longrightarrow> reachable (drawCard rnd turn s)"
| after_play: "reachable s \<Longrightarrow> crd \<in> set (hand turn s) \<Longrightarrow> reachable (playCard crd turn s)"
| after_select: "reachable s \<Longrightarrow> reachable (selectSuit su s)"
| after_menu: "reachable s \<Longrightarrow> reachable (backToMenu s)"

definition totalCards :: "GameState \<Rightarrow> nat" where
  "totalCards s =
     length (deck s) + length (discardPile s) + length (playerHand s) + length (aiHand s)"

definition ids :: "CardData list \<Rightarrow> string set" where
  "ids xs = set (map card_id xs)"

text \<open>52 cards in all, and no identity in two of the four locations.\<close>

definition partitioned :: "GameState \<Rightarrow> bool" where
  "partitioned s =
     (totalCards s = 52 \<and>
      ids (deck s) \<inter> ids (discardPile s) = {} \<and>
      ids (deck s) \<inter> ids (playerHand s) = {} \<and>
      ids (deck s) \<inter> ids (aiHand s) = {} \<and>
      ids (discardPile s) \<inter> ids (playerHand s) = {} \<and>
      ids (discardPile s) \<inter> ids (aiHand s) = {} \<and>
      ids (playerHand s) \<inter> ids (aiHand s) = {})"

definition allCards :: "GameState \<Rightarrow> CardData list" where
  "allCards s = deck s @ discardPile s @ playerHand s @ aiHand s"

text \<open>The invariant behind it: the four locations together hold the cards of the deck.\<close>

definition holdsDeck :: "GameState \<Rightarrow> bool" where
  "holdsDeck s = (mset (allCards s) = mset unshuffledDeck)"

section \<open>Example states\<close>

text \<open>
  A state in play with the king of hearts on top, the player to move: the three of spades
  in the player's hand is not legal, the eight of clubs is.
\<close>

definition midGame :: GameState where
  "midGame =
     \<lparr>deck = [newCard DIAMONDS NINE],
      discardPile = [newCard HEARTS KING],
      playerHand = [newCard SPADES THREE, newCard CLUBS EIGHT],
      aiHand = [newCard DIAMONDS TWO, newCard HEARTS FIVE],
      currentSuit = None, currentTurn = PLAYER, status = PLAYING, winner = None,
      lastAction = GameStarted\<rparr>"

text \<open>The computer to move with the eight of clubs as its last card.\<close>

definition aiLastEight :: GameState where
  "aiLastEight =
     \<lparr>deck = [newCard DIAMONDS NINE],
      discardPile = [newCard HEARTS KING],
      playerHand = [newCard SPADES THREE],
      aiHand = [newCard CLUBS EIGHT],
      currentSuit = None, currentTurn = AI, status = PLAYING, winner = None,
      lastAction = Drew PLAYER\<rparr>"

text \<open>The draw pile is empty and the discard pile holds four cards, the king of hearts on top.\<close>

definition emptyDeck :: GameState where
  "emptyDeck =
     \<lparr>deck = [],
      discardPile = [newCard SPADES ACE, newCard CLUBS TWO, newCard HEARTS TWO,
                     newCard HEARTS KING],
      playerHand = [newCard SPADES THREE],
      aiHand = [newCard DIAMONDS TWO],
      currentSuit = None, currentTurn = PLAYER, status = PLAYING, winner = None,
      lastAction = Played AI KING HEARTS None\<rparr>"


section \<open>Shuffling permutes\<close>

lemma length_shuffleLoop: "length (shuffleLoop rnd n xs) = length xs"
  by (induction n arbitrary: xs) (simp_all add: Let_def)

lemma mset_shuffleLoop: "n < length xs \<Longrightarrow> mset (shuffleLoop rnd n xs) = mset xs"
proof (induction n arbitrary: xs)
  case 0
  then show ?case by simp
next
  case (Suc n)
  let ?j = "rnd (Suc n) mod (Suc n + 1)"
  have j: "?j < length xs" using Suc.prems
  proof -
    have "?j < Suc n + 1" by (rule mod_less_divisor) simp
    with Suc.prems show ?thesis by linarith
  qed
  have sw: "mset (xs[Suc n := xs ! ?j, ?j := xs ! Suc n]) = mset xs"
    using mset_swap [OF j Suc.prems] .
  have "n < length (xs[Suc n := xs ! ?j, ?j := xs ! Suc n])" using Suc.prems by simp
  from Suc.IH [OF this] sw show ?case by (simp add: Let_def)
qed

lemma mset_shuffle: "mset (shuffle rnd xs) = mset xs"
proof (cases xs)
  case Nil
  then show ?thesis by (simp add: shuffle_def)
next
  case (Cons a list)
  then show ?thesis by (simp add: shuffle_def mset_shuffleLoop)
qed

lemma length_shuffle: "length (shuffle rnd xs) = length xs"
  by (simp add: shuffle_def length_shuffleLoop)

lemma length_unshuffledDeck: "length unshuffledDeck = 52"
  by (simp add: unshuffledDeck_def suits_def ranks_def)



text \<open>
  Every arrangement of the list is the result of the shuffle for some draws: at step
  \<open>i\<close> the draw picks, among the positions \<open>0..i\<close>, the element that is to end at
  position \<open>i\<close>.
\<close>

lemma shuffleLoop_cong:
  "(\<And>i. 1 \<le> i \<Longrightarrow> i \<le> n \<Longrightarrow> r1 i = r2 i) \<Longrightarrow> shuffleLoop r1 n xs = shuffleLoop r2 n xs"
  by (induction n arbitrary: xs) (simp_all add: Let_def)

lemma shuffleLoop_onto:
  assumes "n < length xs" and "length ys = length xs"
    and "drop (Suc n) ys = drop (Suc n) xs"
    and "mset (take (Suc n) ys) = mset (take (Suc n) xs)"
  shows "\<exists>rnd. shuffleLoop rnd n xs = ys"
  using assms
proof (induction n arbitrary: xs)
  case 0
  from 0 have "take 1 ys = take 1 xs"
    by (cases xs; cases ys) simp_all
  with 0 have "take 1 ys @ drop 1 ys = take 1 xs @ drop 1 xs" by simp
  then have "ys = xs" by (simp only: append_take_drop_id)
  then show ?case by simp
next
  case (Suc n)
  let ?m = "Suc (Suc n)"
  let ?y = "ys ! Suc n"
  have ny: "Suc n < length ys" using Suc.prems by simp
  have ty: "take ?m ys = take (Suc n) ys @ [?y]" using ny by (rule take_Suc_conv_app_nth)
  then have "?y \<in># mset (take ?m ys)" by simp
  then have "?y \<in> set (take ?m xs)" using Suc.prems(4) by (metis set_mset_mset)
  then obtain j where j: "j < ?m" "j < length xs" "xs ! j = ?y"
    by (auto simp: in_set_conv_nth)
  define xs' where "xs' = xs[Suc n := xs ! j, j := xs ! Suc n]"
  have len: "length xs' = length xs" by (simp add: xs'_def)
  have nx: "Suc n < length xs'" using Suc.prems(1) len by simp
  have at: "xs' ! Suc n = ?y"
    using j Suc.prems(1) by (cases "j = Suc n") (simp_all add: xs'_def)
  have dr: "drop ?m xs' = drop ?m xs" using j by (simp add: xs'_def)
  have "mset xs' = mset xs"
    unfolding xs'_def using mset_swap [OF j(2) Suc.prems(1)] by simp
  then have "mset (take ?m xs') + mset (drop ?m xs') = mset (take ?m xs) + mset (drop ?m xs)"
    by (metis append_take_drop_id mset_append)
  then have tk: "mset (take ?m xs') = mset (take ?m xs)"
    by (simp only: dr add_right_cancel)
  have tx: "take ?m xs' = take (Suc n) xs' @ [?y]"
    using take_Suc_conv_app_nth [OF nx] at by simp
  have p1: "n < length xs'" using nx by simp
  have p2: "length ys = length xs'" using Suc.prems(2) len by simp
  have "drop (Suc n) ys = ?y # drop ?m ys" using ny by (simp add: Cons_nth_drop_Suc)
  moreover have "drop (Suc n) xs' = ?y # drop ?m xs'"
    using nx at by (metis Cons_nth_drop_Suc)
  ultimately have p3: "drop (Suc n) ys = drop (Suc n) xs'"
    using Suc.prems(3) dr by simp
  have "mset (take ?m ys) = mset (take ?m xs')" using tk Suc.prems(4) by simp
  then have p4: "mset (take (Suc n) ys) = mset (take (Suc n) xs')"
    by (simp add: ty tx)
  from Suc.IH [OF p1 p2 p3 p4] obtain rnd' where r: "shuffleLoop rnd' n xs' = ys" by blast
  define rnd where "rnd = rnd'(Suc n := j)"
  have "rnd (Suc n) mod (Suc n + 1) = j" using j(1) by (simp add: rnd_def)
  then have "shuffleLoop rnd (Suc n) xs = shuffleLoop rnd n xs'"
    by (simp add: Let_def xs'_def)
  also have "\<dots> = shuffleLoop rnd' n xs'"
    by (rule shuffleLoop_cong) (simp add: rnd_def)
  finally show ?case using r by blast
qed

lemma shuffle_onto:
  assumes "mset ys = mset xs"
  shows "\<exists>rnd. shuffle rnd xs = ys"
proof (cases "xs = []")
  case True
  with assms show ?thesis by (simp add: shuffle_def)
next
  case False
  have l: "length ys = length xs" using assms by (rule mset_eq_length)
  from False have n: "length xs - 1 < length xs" by simp
  from False have s: "Suc (length xs - 1) = length xs" by simp
  have "\<exists>rnd. shuffleLoop rnd (length xs - 1) xs = ys"
    by (rule shuffleLoop_onto [OF n l]) (simp_all add: s l assms)
  then show ?thesis by (simp add: shuffle_def)
qed

section \<open>The 52 cards of the deck\<close>

lemma rank_of_id: "takeWhile (\<lambda>c. c \<noteq> CHR ''-'') (card_id (newCard s r)) = rank_value r"
  by (cases r) (simp_all add: newCard_def)

lemma suit_of_id: "dropWhile (\<lambda>c. c \<noteq> CHR ''-'') (card_id (newCard s r)) = ''-'' @ suit_value s"
  by (cases r) (simp_all add: newCard_def)

lemma rank_value_inj: "rank_value r = rank_value r' \<Longrightarrow> r = r'"
  by (cases r; cases r'; simp)

lemma suit_value_inj: "suit_value s = suit_value s' \<Longrightarrow> s = s'"
  by (cases s; cases s'; simp)

lemma newCard_id_inj:
  assumes "card_id (newCard s r) = card_id (newCard s' r')"
  shows "s = s' \<and> r = r'"
proof -
  from assms have "takeWhile (\<lambda>c. c \<noteq> CHR ''-'') (card_id (newCard s r))
      = takeWhile (\<lambda>c. c \<noteq> CHR ''-'') (card_id (newCard s' r'))" by simp
  then have r: "r = r'" by (simp only: rank_of_id rank_value_inj)
  from assms have "dropWhile (\<lambda>c. c \<noteq> CHR ''-'') (card_id (newCard s r))
      = dropWhile (\<lambda>c. c \<noteq> CHR ''-'') (card_id (newCard s' r'))" by simp
  then have "suit_value s = suit_value s'" by (simp only: suit_of_id same_append_eq)
  with r show ?thesis by (simp add: suit_value_inj)
qed

lemma unshuffledDeck_product:
  "unshuffledDeck = map (\<lambda>(s, r). newCard s r) (List.product suits ranks)"
  by (simp add: unshuffledDeck_def product_concat_map map_concat comp_def)

lemma distinct_suits: "distinct suits" by (simp add: suits_def)
lemma distinct_ranks: "distinct ranks" by (simp add: ranks_def)

lemma distinct_ids_unshuffledDeck: "distinct (map card_id unshuffledDeck)"
proof -
  have "inj_on (\<lambda>p. card_id (case p of (s, r) \<Rightarrow> newCard s r)) (set (List.product suits ranks))"
    by (rule inj_onI) (auto dest: newCard_id_inj)
  moreover have "distinct (List.product suits ranks)"
    by (simp add: distinct_product distinct_suits distinct_ranks)
  ultimately show ?thesis
    by (simp add: unshuffledDeck_product distinct_map comp_def)
qed

lemma all_suits: "su \<in> set suits"
  by (cases su) (simp_all add: suits_def)

lemma all_ranks: "r \<in> set ranks"
  by (cases r) (simp_all add: ranks_def)

lemma one_card_per_pair:
  "length (filter (\<lambda>c. suit c = su \<and> rank c = r) unshuffledDeck) = 1"
proof -
  let ?pairs = "List.product suits ranks"
  have "filter (\<lambda>c. suit c = su \<and> rank c = r) unshuffledDeck
      = map (\<lambda>(s, r). newCard s r) (filter (\<lambda>p. p = (su, r)) ?pairs)"
    by (simp add: unshuffledDeck_product filter_map comp_def newCard_def case_prod_beta
        prod_eq_iff)
  then have "length (filter (\<lambda>c. suit c = su \<and> rank c = r) unshuffledDeck)
      = length (filter (\<lambda>p. p = (su, r)) ?pairs)" by simp
  also have "\<dots> = card ({p. p = (su, r)} \<inter> set ?pairs)"
    by (rule distinct_length_filter)
      (simp add: distinct_product distinct_suits distinct_ranks)
  also have "{p. p = (su, r)} \<inter> set ?pairs = {(su, r)}"
    using all_suits [of su] all_ranks [of r] by auto
  finally show ?thesis by simp
qed

lemma length_filter_mset_eq:
  "mset xs = mset ys \<Longrightarrow> length (filter P xs) = length (filter P ys)"
  by (metis mset_filter size_mset)

section \<open>The operations keep the deck\<close>

lemma length_createDeck: "length (createDeck rnd) = 52"
  by (simp add: createDeck_def length_shuffle length_unshuffledDeck)

lemma mset_createDeck: "mset (createDeck rnd) = mset unshuffledDeck"
  by (simp add: createDeck_def mset_shuffle)

lemma mset_butlast_last: "xs \<noteq> [] \<Longrightarrow> mset (butlast xs) + {#last xs#} = mset xs"
proof -
  assume "xs \<noteq> []"
  then have "butlast xs @ [last xs] = xs" by simp
  then have "mset (butlast xs @ [last xs]) = mset xs" by simp
  then show ?thesis by simp
qed

lemma mset_deal:
  assumes "16 < length xs"
  shows "mset (butlast (drop 8 (drop 8 xs))) + {#last (drop 8 (drop 8 xs))#}
         + mset (take 8 xs) + mset (take 8 (drop 8 xs)) = mset xs"
proof -
  have ne: "drop 8 (drop 8 xs) \<noteq> []" using assms by simp
  have "mset xs = mset (take 8 xs) + mset (drop 8 xs)"
    by (metis append_take_drop_id mset_append)
  also have "mset (drop 8 xs) = mset (take 8 (drop 8 xs)) + mset (drop 8 (drop 8 xs))"
    by (metis append_take_drop_id mset_append)
  also have "mset (drop 8 (drop 8 xs))
      = mset (butlast (drop 8 (drop 8 xs))) + {#last (drop 8 (drop 8 xs))#}"
    using mset_butlast_last [OF ne] by simp
  finally show ?thesis by (simp add: ac_simps)
qed

lemma holdsDeck_initGame: "holdsDeck (initGame rnd)"
proof -
  have "16 < length (createDeck rnd)" by (simp add: length_createDeck)
  from mset_deal [OF this] show ?thesis
    by (simp add: holdsDeck_def allCards_def initGame_def Let_def mset_createDeck ac_simps)
qed

lemma allCards_setHand:
  "mset (allCards (setHand turn h s)) + mset (hand turn s) = mset (allCards s) + mset h"
  by (cases turn) (simp_all add: allCards_def setHand_def hand_def)

lemma mset_allCards:
  "mset (allCards s) = mset (deck s) + mset (discardPile s) + mset (playerHand s) + mset (aiHand s)"
  by (simp add: allCards_def)

lemma holdsDeck_drawCard:
  assumes "holdsDeck s"
  shows "holdsDeck (drawCard rnd turn s)"
proof (cases "deck s = []")
  case False
  from mset_butlast_last [OF False]
  have "mset (deck s) = add_mset (last (deck s)) (mset (butlast (deck s)))" by simp
  with False assms show ?thesis
    by (cases turn) (simp_all add: holdsDeck_def drawCard_def Let_def mset_allCards setHand_def hand_def)
next
  case True
  show ?thesis
  proof (cases "length (discardPile s) \<le> 1")
    case True
    with \<open>deck s = []\<close> assms show ?thesis
      by (simp add: holdsDeck_def drawCard_def mset_allCards)
  next
    case False
    let ?d = "discardPile s"
    let ?sh = "shuffle rnd (butlast ?d)"
    have ne: "?d \<noteq> []" using False by auto
    have "length ?sh = length ?d - 1" by (simp add: length_shuffle)
    then have ne2: "?sh \<noteq> []" using False by auto
    have top: "?d ! (length ?d - 1) = last ?d" using ne by (simp add: last_conv_nth)
    have "mset (butlast ?d) = mset (butlast ?sh) + {#last ?sh#}"
      using mset_butlast_last [OF ne2] by (simp add: mset_shuffle)
    then have "mset ?d = add_mset (last ?sh) (add_mset (last ?d) (mset (butlast ?sh)))"
      using mset_butlast_last [OF ne] by (simp add: add_mset_commute)
    with True False assms top show ?thesis
      by (cases turn) (simp_all add: holdsDeck_def drawCard_def Let_def mset_allCards setHand_def hand_def)
  qed
qed

lemma mset_filter_other_ids:
  "distinct (map f xs) \<Longrightarrow> x \<in> set xs \<Longrightarrow>
   mset (filter (\<lambda>c. f c \<noteq> f x) xs) + {#x#} = mset xs"
proof (induction xs)
  case Nil
  then show ?case by simp
next
  case (Cons a xs)
  show ?case
  proof (cases "a = x")
    case True
    with Cons.prems have "\<forall>c \<in> set xs. f c \<noteq> f x" by (auto simp: image_iff)
    then have "filter (\<lambda>c. f c \<noteq> f x) xs = xs" by (simp add: filter_id_conv)
    with True show ?thesis by simp
  next
    case False
    with Cons.prems have xin: "x \<in> set xs" by simp
    with Cons.prems have "f a \<noteq> f x" by (auto simp: image_iff)
    with Cons.IH [OF _ xin] Cons.prems show ?thesis by simp
  qed
qed

lemma holdsDeck_distinct_ids:
  assumes "holdsDeck s"
  shows "distinct (map card_id (allCards s))"
proof -
  from assms have "mset (map card_id (allCards s)) = mset (map card_id unshuffledDeck)"
    by (simp add: holdsDeck_def)
  then show ?thesis
    using distinct_ids_unshuffledDeck by (metis mset_eq_imp_distinct_iff)
qed

lemma holdsDeck_playCard:
  assumes "holdsDeck s" and "crd \<in> set (hand turn s)"
  shows "holdsDeck (playCard crd turn s)"
proof -
  from holdsDeck_distinct_ids [OF assms(1)] have "distinct (map card_id (hand turn s))"
    by (cases turn) (simp_all add: allCards_def hand_def)
  from mset_filter_other_ids [OF this assms(2)]
  have "mset (hand turn s)
      = add_mset crd (mset (filter (\<lambda>c. card_id c \<noteq> card_id crd) (hand turn s)))"
    by (simp del: mset_filter)
  with assms(1) show ?thesis
    by (cases turn)
      (simp_all add: holdsDeck_def playCard_def Let_def mset_allCards setHand_def hand_def
        del: mset_filter)
qed

lemma holdsDeck_selectSuit: "holdsDeck s \<Longrightarrow> holdsDeck (selectSuit su s)"
  by (simp add: holdsDeck_def selectSuit_def allCards_def)

lemma holdsDeck_backToMenu: "holdsDeck s \<Longrightarrow> holdsDeck (backToMenu s)"
  by (simp add: holdsDeck_def backToMenu_def allCards_def)

lemma reachable_holdsDeck: "reachable s \<Longrightarrow> holdsDeck s"
  by (induction rule: reachable.induct)
    (simp_all add: holdsDeck_initGame holdsDeck_drawCard holdsDeck_playCard
      holdsDeck_selectSuit holdsDeck_backToMenu)

lemma holdsDeck_partitioned:
  assumes "holdsDeck s"
  shows "partitioned s"
proof -
  have "size (mset (allCards s)) = size (mset unshuffledDeck)"
    using assms by (simp add: holdsDeck_def)
  then have len: "totalCards s = 52"
    by (simp add: allCards_def totalCards_def length_unshuffledDeck)
  from holdsDeck_distinct_ids [OF assms] have "distinct (map card_id (allCards s))" .
  then show ?thesis using len
    by (auto simp: partitioned_def allCards_def ids_def)
qed

section \<open>The card partition\<close>

text \<open>
  C1. In every state reachable after \<open>initGame\<close> the four locations hold 52 cards in
  all and no card identity lies in two of them; a draw, a play of a card of the mover's
  hand and a suit selection each lead to a state with the same property.
\<close>

theorem cards_partition_invariant:
  assumes "reachable s"
  shows "partitioned s \<and> partitioned (drawCard rnd turn s) \<and>
         (crd \<in> set (hand turn s) \<longrightarrow> partitioned (playCard crd turn s)) \<and>
         partitioned (selectSuit su s)"
proof -
  from assms have h: "holdsDeck s" by (rule reachable_holdsDeck)
  show ?thesis
    using h holdsDeck_partitioned holdsDeck_drawCard holdsDeck_playCard holdsDeck_selectSuit
    by blast
qed

theorem cards_partition_invariant_witness:
  "reachable (initGame (\<lambda>_. 0)) \<and>
   newCard HEARTS TWO \<in> set (hand PLAYER (initGame (\<lambda>_. 0))) \<and>
   partitioned (initGame (\<lambda>_. 0)) \<and>
   partitioned (drawCard (\<lambda>_. 0) PLAYER (initGame (\<lambda>_. 0))) \<and>
   partitioned (playCard (newCard HEARTS TWO) PLAYER (initGame (\<lambda>_. 0))) \<and>
   partitioned (selectSuit CLUBS (initGame (\<lambda>_. 0)))"
proof -
  have r: "reachable (initGame (\<lambda>_. 0))" by (rule reachable.after_init)
  have m: "newCard HEARTS TWO \<in> set (hand PLAYER (initGame (\<lambda>_. 0)))" by code_simp
  from cards_partition_invariant [OF r, of "\<lambda>_. 0" PLAYER "newCard HEARTS TWO" CLUBS] r m
  show ?thesis by blast
qed

section \<open>Legality of a play\<close>

text \<open>
  C2. A card of rank eight is legal on every top card and declared suit. A card of any
  other rank is legal exactly when its suit is the declared suit (the top card's suit when
  none is declared) or its rank is the top card's rank.
\<close>

theorem isValidMove_spec:
  "(rank crd = EIGHT \<longrightarrow> isValidMove crd topCard cur) \<and>
   (rank crd \<noteq> EIGHT \<longrightarrow>
      (isValidMove crd topCard cur \<longleftrightarrow>
         suit crd = (case cur of Some s \<Rightarrow> s | None \<Rightarrow> suit topCard)
         \<or> rank crd = rank topCard))"
  by (simp add: isValidMove_def)

theorem isValidMove_spec_witness:
  "isValidMove \<lparr>card_id = ''8-clubs'', suit = CLUBS, rank = EIGHT\<rparr>
     \<lparr>card_id = ''K-hearts'', suit = HEARTS, rank = KING\<rparr> (Some SPADES)
   \<and> isValidMove \<lparr>card_id = ''3-spades'', suit = SPADES, rank = THREE\<rparr>
     \<lparr>card_id = ''K-hearts'', suit = HEARTS, rank = KING\<rparr> (Some SPADES)
   \<and> \<not> isValidMove \<lparr>card_id = ''3-hearts'', suit = HEARTS, rank = THREE\<rparr>
     \<lparr>card_id = ''K-hearts'', suit = HEARTS, rank = KING\<rparr> (Some SPADES)"
  using isValidMove_spec [of "\<lparr>card_id = ''8-clubs'', suit = CLUBS, rank = EIGHT\<rparr>"
      "\<lparr>card_id = ''K-hearts'', suit = HEARTS, rank = KING\<rparr>" "Some SPADES"]
    isValidMove_spec [of "\<lparr>card_id = ''3-spades'', suit = SPADES, rank = THREE\<rparr>"
      "\<lparr>card_id = ''K-hearts'', suit = HEARTS, rank = KING\<rparr>" "Some SPADES"]
    isValidMove_spec [of "\<lparr>card_id = ''3-hearts'', suit = HEARTS, rank = THREE\<rparr>"
      "\<lparr>card_id = ''K-hearts'', suit = HEARTS, rank = KING\<rparr>" "Some SPADES"]
  by simp

section \<open>The deal\<close>

text \<open>
  C8. Right after \<open>initGame\<close>, whatever the shuffle drew: each hand has 8 cards, the
  discard pile 1 and the draw pile 35; the four locations together hold the 52 cards of
  the deck, exactly one for each pair of a suit and a rank, with pairwise distinct
  identities; it is the player's turn, the status is playing, no suit is declared and
  there is no winner.
\<close>

theorem initGame_deal:
  "length (playerHand (initGame rnd)) = 8 \<and>
   length (aiHand (initGame rnd)) = 8 \<and>
   length (discardPile (initGame rnd)) = 1 \<and>
   length (deck (initGame rnd)) = 35 \<and>
   mset (allCards (initGame rnd)) = mset unshuffledDeck \<and>
   (\<forall>su r. length (filter (\<lambda>c. suit c = su \<and> rank c = r) (allCards (initGame rnd))) = 1) \<and>
   distinct (map card_id (allCards (initGame rnd))) \<and>
   currentTurn (initGame rnd) = PLAYER \<and>
   status (initGame rnd) = PLAYING \<and>
   currentSuit (initGame rnd) = None \<and>
   winner (initGame rnd) = None"
proof -
  have inv: "holdsDeck (initGame rnd)" by (rule holdsDeck_initGame)
  then have m: "mset (allCards (initGame rnd)) = mset unshuffledDeck"
    by (simp add: holdsDeck_def)
  have lens: "length (playerHand (initGame rnd)) = 8 \<and> length (aiHand (initGame rnd)) = 8 \<and>
      length (discardPile (initGame rnd)) = 1 \<and> length (deck (initGame rnd)) = 35"
    by (simp add: initGame_def Let_def length_createDeck)
  have pairs: "\<forall>su r. length (filter (\<lambda>c. suit c = su \<and> rank c = r) (allCards (initGame rnd))) = 1"
    using length_filter_mset_eq [OF m] one_card_per_pair by simp
  have flags: "currentTurn (initGame rnd) = PLAYER \<and> status (initGame rnd) = PLAYING \<and>
      currentSuit (initGame rnd) = None \<and> winner (initGame rnd) = None"
    by (simp add: initGame_def Let_def)
  from lens m pairs holdsDeck_distinct_ids [OF inv] flags show ?thesis by blast
qed

section \<open>The suit the computer declares\<close>

lemma countSuits_foldl:
  "foldl (\<lambda>counts c. counts(suit c := counts (suit c) + 1)) acc h su
     = acc su + length (filter (\<lambda>c. suit c = su) h)"
  by (induction h arbitrary: acc) simp_all

lemma countSuits_suitCount: "countSuits h = suitCount h"
  by (rule ext) (simp only: countSuits_def suitCount_def countSuits_foldl add_0)

lemma chosenSuitOf_cases:
  "chosenSuitOf h =
     (let a1 = (if suitCount h HEARTS > suitCount h DIAMONDS then HEARTS else DIAMONDS);
          a2 = (if suitCount h a1 > suitCount h CLUBS then a1 else CLUBS)
      in if suitCount h a2 > suitCount h SPADES then a2 else SPADES)"
  by (simp add: chosenSuitOf_def suits_def countSuits_suitCount Let_def)

lemma chosenSuitOf_last_best: "chosenSuitOf h = last (bestSuits h)"
  by (simp add: chosenSuitOf_cases bestSuits_def maxSuitCount_def suits_def Let_def)

lemma chosenSuitOf_max: "suitCount h su \<le> suitCount h (chosenSuitOf h)"
  by (cases su) (simp_all add: chosenSuitOf_cases Let_def)

lemma bestSuits_nonempty: "bestSuits h \<noteq> []"
  by (simp add: bestSuits_def maxSuitCount_def suits_def filter_empty_conv max_def)

lemma suitCount_mset:
  assumes "mset (map suit h1) = mset (map suit h2)"
  shows "suitCount h1 su = suitCount h2 su"
proof -
  have "suitCount h su = count (mset (map suit h)) su" for h
    by (induction h) (simp_all add: suitCount_def)
  with assms show ?thesis by simp
qed

lemma bestSuits_mset:
  assumes "mset (map suit h1) = mset (map suit h2)"
  shows "bestSuits h1 = bestSuits h2"
  by (simp add: bestSuits_def maxSuitCount_def suitCount_mset [OF assms])

lemma suitPriority_position: "suits ! suitPriority su = su"
  by (cases su) (simp_all add: suits_def)

lemma suitPriority_inj: "suitPriority a = suitPriority b \<Longrightarrow> a = b"
  by (cases a; cases b) simp_all

lemma chosenSuitOf_priority:
  "suitCount h su = suitCount h (chosenSuitOf h) \<Longrightarrow>
   suitPriority su \<le> suitPriority (chosenSuitOf h)"
  by (cases su) (simp_all add: chosenSuitOf_cases Let_def split: if_splits)

lemma chosenSuitOf_unique:
  assumes "\<forall>t. suitCount h t \<le> suitCount h su"
    and "\<forall>t. suitCount h t = suitCount h su \<longrightarrow> suitPriority t \<le> suitPriority su"
  shows "chosenSuitOf h = su"
proof -
  let ?c = "chosenSuitOf h"
  have "suitCount h su \<le> suitCount h ?c" by (rule chosenSuitOf_max)
  moreover have "suitCount h ?c \<le> suitCount h su" using assms(1) by blast
  ultimately have eq: "suitCount h su = suitCount h ?c" by simp
  then have "suitPriority su \<le> suitPriority ?c" by (rule chosenSuitOf_priority)
  moreover have "suitPriority ?c \<le> suitPriority su" using assms(2) eq by simp
  ultimately have "suitPriority ?c = suitPriority su" by simp
  then show ?thesis by (rule suitPriority_inj)
qed

text \<open>
  C9. The suit the computer declares with an eight is a function of the hand that is
  left: \<open>playCard\<close> stores the value of \<open>chosenSuitOf\<close> on that hand; two hands with
  the same suits, in any order, get the same suit; the suit chosen has the highest count,
  where the count of a suit is the number of cards of that suit in the hand; and two hands
  with the same suits of highest count get the same suit. A tie is settled by a fixed
  order of the four suits, the position \<open>suitPriority\<close> of a suit in the enumeration, which
  tells any two suits apart: no suit of the same count as the chosen one comes after it,
  and the suit of highest count that no suit of equal count comes after is the one chosen.
\<close>

theorem chosen_suit_deterministic:
  "(rank crd = EIGHT \<longrightarrow>
      currentSuit (playCard crd AI s) = Some (chosenSuitOf (aiHand (playCard crd AI s)))) \<and>
   (mset (map suit h1) = mset (map suit h2) \<longrightarrow> chosenSuitOf h1 = chosenSuitOf h2) \<and>
   countSuits h su = length (filter (\<lambda>c. suit c = su) h) \<and>
   countSuits h su \<le> countSuits h (chosenSuitOf h) \<and>
   (bestSuits h1 = bestSuits h2 \<longrightarrow> chosenSuitOf h1 = chosenSuitOf h2) \<and>
   suits ! suitPriority su = su \<and>
   (suitPriority su = suitPriority su' \<longrightarrow> su = su') \<and>
   (countSuits h su = countSuits h (chosenSuitOf h) \<longrightarrow>
      suitPriority su \<le> suitPriority (chosenSuitOf h)) \<and>
   ((\<forall>t. countSuits h t \<le> countSuits h su) \<and>
    (\<forall>t. countSuits h t = countSuits h su \<longrightarrow> suitPriority t \<le> suitPriority su) \<longrightarrow>
      chosenSuitOf h = su)"
proof -
  have a: "rank crd = EIGHT \<longrightarrow>
      currentSuit (playCard crd AI s) = Some (chosenSuitOf (aiHand (playCard crd AI s)))"
    by (simp add: playCard_def Let_def setHand_def hand_def)
  have b: "mset (map suit h1) = mset (map suit h2) \<longrightarrow> chosenSuitOf h1 = chosenSuitOf h2"
  proof
    assume "mset (map suit h1) = mset (map suit h2)"
    then have "bestSuits h1 = bestSuits h2" by (rule bestSuits_mset)
    then show "chosenSuitOf h1 = chosenSuitOf h2" by (simp only: chosenSuitOf_last_best)
  qed
  have c: "countSuits h su = length (filter (\<lambda>c. suit c = su) h)"
    by (simp add: countSuits_suitCount suitCount_def)
  have d: "countSuits h su \<le> countSuits h (chosenSuitOf h)"
    by (simp add: countSuits_suitCount chosenSuitOf_max)
  have e: "bestSuits h1 = bestSuits h2 \<longrightarrow> chosenSuitOf h1 = chosenSuitOf h2"
    by (simp only: chosenSuitOf_last_best) simp
  have f: "suits ! suitPriority su = su" by (rule suitPriority_position)
  have g: "suitPriority su = suitPriority su' \<longrightarrow> su = su'"
    using suitPriority_inj by blast
  have i: "countSuits h su = countSuits h (chosenSuitOf h) \<longrightarrow>
      suitPriority su \<le> suitPriority (chosenSuitOf h)"
    using chosenSuitOf_priority by (simp add: countSuits_suitCount)
  have j: "(\<forall>t. countSuits h t \<le> countSuits h su) \<and>
    (\<forall>t. countSuits h t = countSuits h su \<longrightarrow> suitPriority t \<le> suitPriority su) \<longrightarrow>
      chosenSuitOf h = su"
    using chosenSuitOf_unique [of h su] by (simp add: countSuits_suitCount)
  show ?thesis
    by (rule conjI [OF a conjI [OF b conjI [OF c conjI [OF d conjI [OF e conjI [OF f
          conjI [OF g conjI [OF i j]]]]]]]])
qed

theorem chosen_suit_deterministic_witness:
  "chosenSuitOf [newCard SPADES EIGHT, newCard HEARTS EIGHT, newCard CLUBS THREE, newCard CLUBS FOUR]
     = chosenSuitOf [newCard CLUBS FOUR, newCard HEARTS EIGHT, newCard CLUBS THREE, newCard SPADES EIGHT]
   \<and> chosenSuitOf [newCard SPADES EIGHT, newCard HEARTS EIGHT, newCard CLUBS THREE, newCard CLUBS FOUR]
     = chosenSuitOf [newCard CLUBS KING]
   \<and> currentSuit (playCard (newCard DIAMONDS EIGHT) AI
        \<lparr>deck = [], discardPile = [newCard HEARTS KING], playerHand = [newCard SPADES TWO],
         aiHand = [newCard DIAMONDS EIGHT, newCard CLUBS THREE], currentSuit = None,
         currentTurn = AI, status = PLAYING, winner = None, lastAction = GameStarted\<rparr>)
       = Some CLUBS
   \<and> chosenSuitOf [newCard HEARTS QUEEN, newCard DIAMONDS FOUR, newCard DIAMONDS JACK,
        newCard HEARTS SEVEN] = DIAMONDS"
proof -
  let ?h1 = "[newCard SPADES EIGHT, newCard HEARTS EIGHT, newCard CLUBS THREE, newCard CLUBS FOUR]"
  let ?h2 = "[newCard CLUBS FOUR, newCard HEARTS EIGHT, newCard CLUBS THREE, newCard SPADES EIGHT]"
  let ?h3 = "[newCard CLUBS KING]"
  let ?g = "[newCard HEARTS QUEEN, newCard DIAMONDS FOUR, newCard DIAMONDS JACK,
        newCard HEARTS SEVEN]"
  let ?s = "\<lparr>deck = [], discardPile = [newCard HEARTS KING], playerHand = [newCard SPADES TWO],
         aiHand = [newCard DIAMONDS EIGHT, newCard CLUBS THREE], currentSuit = None,
         currentTurn = AI, status = PLAYING, winner = None, lastAction = GameStarted\<rparr>"
  have m: "mset (map suit ?h1) = mset (map suit ?h2)" by (simp add: newCard_def)
  have b: "bestSuits ?h1 = bestSuits ?h3" by code_simp
  have r: "rank (newCard DIAMONDS EIGHT) = EIGHT" by (simp add: newCard_def)
  have v: "chosenSuitOf (aiHand (playCard (newCard DIAMONDS EIGHT) AI ?s)) = CLUBS" by code_simp
  have cnt: "countSuits ?g t = (if t = HEARTS \<or> t = DIAMONDS then 2 else 0)" for t
    by (cases t) (simp_all add: countSuits_def newCard_def)
  have tie: "(\<forall>t. countSuits ?g t \<le> countSuits ?g DIAMONDS) \<and>
    (\<forall>t. countSuits ?g t = countSuits ?g DIAMONDS \<longrightarrow> suitPriority t \<le> suitPriority DIAMONDS)"
    by (simp add: cnt)
  note t2 = chosen_suit_deterministic [of "newCard DIAMONDS EIGHT" ?s ?h1 ?h2 ?h1 CLUBS CLUBS]
  note t3 = chosen_suit_deterministic [of "newCard DIAMONDS EIGHT" ?s ?h1 ?h3 ?h1 CLUBS CLUBS]
  note t4 = chosen_suit_deterministic [of "newCard DIAMONDS EIGHT" ?s ?h1 ?h2 ?g DIAMONDS DIAMONDS]
  have x: "chosenSuitOf ?h1 = chosenSuitOf ?h2"
    by (rule t2 [THEN conjunct2, THEN conjunct1, THEN mp, OF m])
  have y: "chosenSuitOf ?h1 = chosenSuitOf ?h3"
    by (rule t3 [THEN conjunct2, THEN conjunct2, THEN conjunct2, THEN conjunct2,
          THEN conjunct1, THEN mp, OF b])
  have "currentSuit (playCard (newCard DIAMONDS EIGHT) AI ?s)
      = Some (chosenSuitOf (aiHand (playCard (newCard DIAMONDS EIGHT) AI ?s)))"
    by (rule t2 [THEN conjunct1, THEN mp, OF r])
  then have z: "currentSuit (playCard (newCard DIAMONDS EIGHT) AI ?s) = Some CLUBS"
    by (simp only: v)
  have w: "chosenSuitOf ?g = DIAMONDS"
    by (rule t4 [THEN conjunct2, THEN conjunct2, THEN conjunct2, THEN conjunct2,
          THEN conjunct2, THEN conjunct2, THEN conjunct2, THEN conjunct2, THEN mp, OF tie])
  show ?thesis by (rule conjI [OF x conjI [OF y conjI [OF z w]]])
qed

text \<open>
  C10. Among the suits of highest count the computer declares the one that comes last in
  the enumeration hearts, diamonds, clubs, spades. When the four counts are equal, as in
  the empty hand, it declares spades.
\<close>

theorem chosen_suit_tie_break:
  "chosenSuitOf h = last (bestSuits h) \<and>
   (suitCount h HEARTS = suitCount h DIAMONDS \<and> suitCount h DIAMONDS = suitCount h CLUBS \<and>
    suitCount h CLUBS = suitCount h SPADES \<longrightarrow> chosenSuitOf h = SPADES) \<and>
   chosenSuitOf [] = SPADES \<and>
   suits = [HEARTS, DIAMONDS, CLUBS, SPADES] \<and>
   bestSuits h = filter (\<lambda>su. \<forall>t. countSuits h t \<le> countSuits h su) suits"
proof -
  have a: "chosenSuitOf h = last (bestSuits h)" by (rule chosenSuitOf_last_best)
  have b: "suitCount h HEARTS = suitCount h DIAMONDS \<and> suitCount h DIAMONDS = suitCount h CLUBS \<and>
    suitCount h CLUBS = suitCount h SPADES \<longrightarrow> chosenSuitOf h = SPADES"
    by (simp add: chosenSuitOf_cases Let_def)
  have c: "chosenSuitOf [] = SPADES"
    by (simp add: chosenSuitOf_cases Let_def suitCount_def)
  have "(suitCount h su = maxSuitCount h) = (\<forall>t. suitCount h t \<le> suitCount h su)" for su
  proof
    assume "suitCount h su = maxSuitCount h"
    then show "\<forall>t. suitCount h t \<le> suitCount h su"
    proof (intro allI)
      fix t
      assume "suitCount h su = maxSuitCount h"
      then show "suitCount h t \<le> suitCount h su"
        by (cases t) (simp_all add: maxSuitCount_def)
    qed
  next
    assume h: "\<forall>t. suitCount h t \<le> suitCount h su"
    from h have "maxSuitCount h \<le> suitCount h su" by (simp add: maxSuitCount_def)
    moreover have "suitCount h su \<le> maxSuitCount h"
      by (cases su) (simp_all add: maxSuitCount_def)
    ultimately show "suitCount h su = maxSuitCount h" by simp
  qed
  then have d: "bestSuits h = filter (\<lambda>su. \<forall>t. countSuits h t \<le> countSuits h su) suits"
    by (simp add: bestSuits_def countSuits_suitCount)
  have e: "suits = [HEARTS, DIAMONDS, CLUBS, SPADES]" by (simp add: suits_def)
  show ?thesis
    by (rule conjI [OF a conjI [OF b conjI [OF c conjI [OF e d]]]])
qed

theorem chosen_suit_tie_break_witness:
  "chosenSuitOf [newCard HEARTS TWO, newCard DIAMONDS TWO, newCard CLUBS TWO, newCard SPADES TWO] = SPADES
   \<and> chosenSuitOf [newCard HEARTS TWO, newCard DIAMONDS THREE, newCard HEARTS FOUR, newCard DIAMONDS FIVE, newCard SPADES SIX] = DIAMONDS"
proof -
  let ?h = "[newCard HEARTS TWO, newCard DIAMONDS TWO, newCard CLUBS TWO, newCard SPADES TWO]"
  let ?g = "[newCard HEARTS TWO, newCard DIAMONDS THREE, newCard HEARTS FOUR, newCard DIAMONDS FIVE, newCard SPADES SIX]"
  have e: "suitCount ?h HEARTS = suitCount ?h DIAMONDS \<and> suitCount ?h DIAMONDS = suitCount ?h CLUBS \<and>
    suitCount ?h CLUBS = suitCount ?h SPADES" by (simp add: suitCount_def newCard_def)
  have l: "last (bestSuits ?g) = DIAMONDS" by code_simp
  have x: "chosenSuitOf ?h = SPADES"
    by (rule chosen_suit_tie_break [of ?h, THEN conjunct2, THEN conjunct1, THEN mp, OF e])
  have "chosenSuitOf ?g = last (bestSuits ?g)"
    by (rule chosen_suit_tie_break [of ?g, THEN conjunct1])
  then have y: "chosenSuitOf ?g = DIAMONDS" by (simp only: l)
  show ?thesis by (rule conjI [OF x y])
qed

section \<open>Plays and their checks\<close>

text \<open>
  The callers read the top card as the last card of the discard pile. In every reachable
  state there is one.
\<close>

lemma discardPile_setHand: "discardPile (setHand turn h s) = discardPile s"
  by (simp add: setHand_def)

lemma reachable_discardPile: "reachable s \<Longrightarrow> discardPile s \<noteq> []"
proof (induction rule: reachable.induct)
  case (after_init rnd)
  show ?case by (simp add: initGame_def Let_def)
next
  case (after_draw s rnd turn)
  then show ?case by (simp add: drawCard_def Let_def discardPile_setHand)
next
  case (after_play s crd turn)
  show ?case by (simp add: playCard_def Let_def discardPile_setHand)
next
  case (after_select s su)
  then show ?case by (simp add: selectSuit_def)
next
  case (after_menu s)
  then show ?case by (simp add: backToMenu_def)
qed

lemma aiMove_cases:
  assumes "status s = PLAYING" "currentTurn s = AI" "winner s = None"
  shows "(\<exists>c \<in> set (aiHand s). isValidMove c (last (discardPile s)) (currentSuit s) \<and>
            aiMove pick rnd s = playCard c AI s) \<or>
         ((\<forall>c \<in> set (aiHand s). \<not> isValidMove c (last (discardPile s)) (currentSuit s)) \<and>
            aiMove pick rnd s = drawCard rnd AI s)"
proof -
  let ?ok = "\<lambda>c. isValidMove c (last (discardPile s)) (currentSuit s)"
  let ?pl = "filter ?ok (aiHand s)"
  let ?ne = "filter (\<lambda>c. rank c \<noteq> EIGHT) ?pl"
  show ?thesis
  proof (cases "?pl = []")
    case True
    then have "\<forall>c \<in> set (aiHand s). \<not> ?ok c" by (simp add: filter_empty_conv)
    moreover from True assms have "aiMove pick rnd s = drawCard rnd AI s"
      by (simp add: aiMove_def)
    ultimately show ?thesis by blast
  next
    case False
    define c where "c = (if length ?ne > 0 then ?ne ! (pick mod length ?ne) else ?pl ! 0)"
    have "c \<in> set ?pl"
    proof (cases "length ?ne > 0")
      case True
      then have "pick mod length ?ne < length ?ne" by simp
      then have "?ne ! (pick mod length ?ne) \<in> set ?ne" by (rule nth_mem)
      then have "?ne ! (pick mod length ?ne) \<in> set ?pl" by simp
      with True show ?thesis by (simp add: c_def)
    next
      case F: False
      from \<open>?pl \<noteq> []\<close> have "0 < length ?pl" by (rule length_greater_0_conv [THEN iffD2])
      then have "?pl ! 0 \<in> set ?pl" by (rule nth_mem)
      with F show ?thesis by (simp add: c_def)
    qed
    then have m: "c \<in> set (aiHand s) \<and> ?ok c" by simp
    from False assms have "aiMove pick rnd s = playCard c AI s"
      by (simp add: aiMove_def Let_def c_def)
    with m show ?thesis by blast
  qed
qed

text \<open>
  C3, as stated, fails. \<open>playCard\<close> has no failing case: on \<open>midGame\<close> it applies a card
  that is not legal, a card played by the side that does not hold the turn, a card that
  is not in the mover's hand, and a card played when the status is not playing; each time
  the state changes.
\<close>

theorem play_unchecked_counterexample:
  "\<not> isValidMove (newCard SPADES THREE) (last (discardPile midGame)) (currentSuit midGame)
   \<and> discardPile (playCard (newCard SPADES THREE) PLAYER midGame)
       = discardPile midGame @ [newCard SPADES THREE]
   \<and> playCard (newCard SPADES THREE) PLAYER midGame \<noteq> midGame
   \<and> currentTurn midGame \<noteq> AI
   \<and> playCard (newCard HEARTS FIVE) AI midGame \<noteq> midGame
   \<and> newCard HEARTS QUEEN \<notin> set (hand PLAYER midGame)
   \<and> playCard (newCard HEARTS QUEEN) PLAYER midGame \<noteq> midGame
   \<and> status (midGame\<lparr>status := GAME_OVER\<rparr>) \<noteq> PLAYING
   \<and> playCard (newCard CLUBS EIGHT) PLAYER (midGame\<lparr>status := GAME_OVER\<rparr>)
       \<noteq> midGame\<lparr>status := GAME_OVER\<rparr>"
  by (simp add: midGame_def playCard_def isValidMove_def newCard_def hand_def setHand_def Let_def)

text \<open>
  C3, amended. \<open>playCard\<close> checks nothing and always applies: the card goes on top of
  the discard pile. The checks are those of its two callers. A click on the player's card
  at index \<open>i\<close> calls \<open>playCard\<close> with that card of the player's hand when it is the
  player's turn, the status is playing and the card is legal on the top card, and leaves
  the state unchanged otherwise. The computer's move, when the status is playing, it is
  the computer's turn and there is no winner, plays a legal card of the computer's hand or,
  if the hand has none, draws; otherwise it leaves the state unchanged.
\<close>

theorem play_checked_by_callers:
  assumes "discardPile s \<noteq> []"
  shows "discardPile (playCard crd turn s) = discardPile s @ [crd] \<and>
    (i < length (playerHand s) \<and> currentTurn s = PLAYER \<and> status s = PLAYING \<and>
       isValidMove (playerHand s ! i) (last (discardPile s)) (currentSuit s) \<longrightarrow>
       clickHandCard i s = playCard (playerHand s ! i) PLAYER s) \<and>
    (\<not> (i < length (playerHand s) \<and> currentTurn s = PLAYER \<and> status s = PLAYING \<and>
       isValidMove (playerHand s ! i) (last (discardPile s)) (currentSuit s)) \<longrightarrow>
       clickHandCard i s = s) \<and>
    (status s = PLAYING \<and> currentTurn s = AI \<and> winner s = None \<longrightarrow>
       (\<exists>c \<in> set (aiHand s). isValidMove c (last (discardPile s)) (currentSuit s) \<and>
            aiMove pick rnd s = playCard c AI s) \<or>
       ((\<forall>c \<in> set (aiHand s). \<not> isValidMove c (last (discardPile s)) (currentSuit s)) \<and>
            aiMove pick rnd s = drawCard rnd AI s)) \<and>
    (\<not> (status s = PLAYING \<and> currentTurn s = AI \<and> winner s = None) \<longrightarrow>
       aiMove pick rnd s = s)"
proof -
  have a: "discardPile (playCard crd turn s) = discardPile s @ [crd]"
    by (cases turn) (simp_all add: playCard_def Let_def setHand_def)
  have b: "i < length (playerHand s) \<and> currentTurn s = PLAYER \<and> status s = PLAYING \<and>
       isValidMove (playerHand s ! i) (last (discardPile s)) (currentSuit s) \<longrightarrow>
       clickHandCard i s = playCard (playerHand s ! i) PLAYER s"
    by (simp add: clickHandCard_def playable_def)
  have c: "\<not> (i < length (playerHand s) \<and> currentTurn s = PLAYER \<and> status s = PLAYING \<and>
       isValidMove (playerHand s ! i) (last (discardPile s)) (currentSuit s)) \<longrightarrow>
       clickHandCard i s = s"
    by (auto simp: clickHandCard_def playable_def)
  have d: "status s = PLAYING \<and> currentTurn s = AI \<and> winner s = None \<longrightarrow>
       (\<exists>c \<in> set (aiHand s). isValidMove c (last (discardPile s)) (currentSuit s) \<and>
            aiMove pick rnd s = playCard c AI s) \<or>
       ((\<forall>c \<in> set (aiHand s). \<not> isValidMove c (last (discardPile s)) (currentSuit s)) \<and>
            aiMove pick rnd s = drawCard rnd AI s)"
    using aiMove_cases by blast
  have e: "\<not> (status s = PLAYING \<and> currentTurn s = AI \<and> winner s = None) \<longrightarrow>
       aiMove pick rnd s = s"
    by (auto simp: aiMove_def)
  show ?thesis
    by (rule conjI [OF a conjI [OF b conjI [OF c conjI [OF d e]]]])
qed

theorem play_checked_by_callers_witness:
  "discardPile midGame \<noteq> []
   \<and> clickHandCard 0 midGame = midGame
   \<and> clickHandCard 1 midGame = playCard (newCard CLUBS EIGHT) PLAYER midGame
   \<and> aiMove 0 (\<lambda>_. 0) midGame = midGame
   \<and> discardPile (playCard (newCard SPADES THREE) PLAYER midGame)
       = [newCard HEARTS KING, newCard SPADES THREE]"
proof -
  have ne: "discardPile midGame \<noteq> []" by (simp add: midGame_def)
  note t0 = play_checked_by_callers [OF ne, of "newCard SPADES THREE" PLAYER 0 0 "\<lambda>_. 0"]
  note t1 = play_checked_by_callers [OF ne, of "newCard SPADES THREE" PLAYER 1 0 "\<lambda>_. 0"]
  have g0: "\<not> (0 < length (playerHand midGame) \<and> currentTurn midGame = PLAYER \<and>
       status midGame = PLAYING \<and>
       isValidMove (playerHand midGame ! 0) (last (discardPile midGame)) (currentSuit midGame))"
    by (simp add: midGame_def isValidMove_def newCard_def)
  have g1: "1 < length (playerHand midGame) \<and> currentTurn midGame = PLAYER \<and>
       status midGame = PLAYING \<and>
       isValidMove (playerHand midGame ! 1) (last (discardPile midGame)) (currentSuit midGame)"
    by (simp add: midGame_def isValidMove_def newCard_def)
  have g2: "\<not> (status midGame = PLAYING \<and> currentTurn midGame = AI \<and> winner midGame = None)"
    by (simp add: midGame_def)
  have c1: "playerHand midGame ! 1 = newCard CLUBS EIGHT" by (simp add: midGame_def)
  have d0: "discardPile midGame @ [newCard SPADES THREE]
      = [newCard HEARTS KING, newCard SPADES THREE]" by (simp add: midGame_def)
  have x: "clickHandCard 0 midGame = midGame"
    by (rule t0 [THEN conjunct2, THEN conjunct2, THEN conjunct1, THEN mp, OF g0])
  have "clickHandCard 1 midGame = playCard (playerHand midGame ! 1) PLAYER midGame"
    by (rule t1 [THEN conjunct2, THEN conjunct1, THEN mp, OF g1])
  then have y: "clickHandCard 1 midGame = playCard (newCard CLUBS EIGHT) PLAYER midGame"
    by (simp only: c1)
  have z: "aiMove 0 (\<lambda>_. 0) midGame = midGame"
    by (rule t0 [THEN conjunct2, THEN conjunct2, THEN conjunct2, THEN conjunct2, THEN mp, OF g2])
  have "discardPile (playCard (newCard SPADES THREE) PLAYER midGame)
      = discardPile midGame @ [newCard SPADES THREE]"
    by (rule t0 [THEN conjunct1])
  then have w: "discardPile (playCard (newCard SPADES THREE) PLAYER midGame)
      = [newCard HEARTS KING, newCard SPADES THREE]" by (simp only: d0)
  show ?thesis
    by (rule conjI [OF ne conjI [OF x conjI [OF y conjI [OF z w]]]])
qed

section \<open>Playing the last card\<close>

lemma chosenSuitOf_Nil: "chosenSuitOf [] = SPADES"
  by (simp add: chosenSuitOf_def countSuits_def suits_def)

text \<open>
  C4, as stated, fails. The computer plays its last card, an eight: the game is over, but
  the turn has passed to the player and a suit, spades, has been declared.
\<close>

theorem last_card_updates_counterexample:
  "status aiLastEight = PLAYING
   \<and> hand AI aiLastEight = [newCard CLUBS EIGHT]
   \<and> currentTurn aiLastEight = AI
   \<and> currentSuit aiLastEight = None
   \<and> status (playCard (newCard CLUBS EIGHT) AI aiLastEight) = GAME_OVER
   \<and> currentTurn (playCard (newCard CLUBS EIGHT) AI aiLastEight) = PLAYER
   \<and> currentTurn (playCard (newCard CLUBS EIGHT) AI aiLastEight) \<noteq> currentTurn aiLastEight
   \<and> currentSuit (playCard (newCard CLUBS EIGHT) AI aiLastEight) = Some SPADES"
  by (simp add: aiLastEight_def playCard_def newCard_def hand_def setHand_def Let_def
      chosenSuitOf_def countSuits_def suits_def)

text \<open>
  C4, amended. When the mover's hand is exactly the card played, the status becomes
  game over, the winner is the mover, the hand is empty and the card is on top of the
  discard pile. The turn and the declared suit are set as after any other play: the turn
  stays with the player after the player's eight and passes to the other side otherwise;
  the declared suit is spades, the choice on an empty hand, after the computer's eight and
  none otherwise.
\<close>

theorem last_card_wins:
  assumes "hand turn s = [crd]"
  shows "status (playCard crd turn s) = GAME_OVER \<and>
         winner (playCard crd turn s) = Some turn \<and>
         hand turn (playCard crd turn s) = [] \<and>
         discardPile (playCard crd turn s) = discardPile s @ [crd] \<and>
         currentTurn (playCard crd turn s)
           = (if rank crd = EIGHT \<and> turn = PLAYER then PLAYER else other turn) \<and>
         currentSuit (playCard crd turn s)
           = (if rank crd = EIGHT \<and> turn = AI then Some SPADES else None)"
  using assms
  by (cases turn) (simp_all add: playCard_def Let_def hand_def setHand_def chosenSuitOf_Nil)

theorem last_card_wins_witness:
  "hand AI aiLastEight = [newCard CLUBS EIGHT]
   \<and> status (playCard (newCard CLUBS EIGHT) AI aiLastEight) = GAME_OVER
   \<and> winner (playCard (newCard CLUBS EIGHT) AI aiLastEight) = Some AI"
proof -
  have h: "hand AI aiLastEight = [newCard CLUBS EIGHT]"
    by (simp add: aiLastEight_def hand_def)
  note t = last_card_wins [OF h]
  show ?thesis
    by (rule conjI [OF h conjI [OF t [THEN conjunct1] t [THEN conjunct2, THEN conjunct1]]])
qed

section \<open>Drawing from an empty draw pile\<close>

lemma drawCard_reshuffle:
  assumes "deck s = []" and "1 < length (discardPile s)"
  shows "drawCard rnd turn s
      = setHand turn (hand turn s @ [last (shuffle rnd (butlast (discardPile s)))])
          (s\<lparr>deck := butlast (shuffle rnd (butlast (discardPile s))),
             discardPile := [last (discardPile s)], lastAction := Drew turn,
             currentTurn := other turn\<rparr>)"
proof -
  have "discardPile s \<noteq> []" using assms(2) by auto
  then have "discardPile s ! (length (discardPile s) - 1) = last (discardPile s)"
    by (simp add: last_conv_nth)
  with assms show ?thesis by (simp add: drawCard_def Let_def)
qed

text \<open>
  C5. With an empty draw pile and more than one card on the discard pile, \<open>drawCard\<close>
  shuffles the discard pile without its top card; the discard pile becomes the old top
  card alone, the last card of the shuffled pile goes to the end of the mover's hand and
  the rest is the new draw pile, so the new draw pile and the drawn card are together the
  old discard pile without its top; the other hand, the declared suit, the status and the
  winner are unchanged, the turn passes to the other side and the number of cards is the
  same. The shuffle is one: for every arrangement \<open>ys\<close> of the discard pile without its
  top card some draws of the random source make the last card of \<open>ys\<close> the card drawn and
  the rest of \<open>ys\<close> the new draw pile, the top card staying alone on the discard pile.
\<close>

theorem draw_reshuffles_discards:
  assumes "deck s = []" and "1 < length (discardPile s)"
  shows "discardPile (drawCard rnd turn s) = [last (discardPile s)] \<and>
         deck (drawCard rnd turn s) = butlast (shuffle rnd (butlast (discardPile s))) \<and>
         hand turn (drawCard rnd turn s)
           = hand turn s @ [last (shuffle rnd (butlast (discardPile s)))] \<and>
         mset (deck (drawCard rnd turn s))
           + {#last (shuffle rnd (butlast (discardPile s)))#}
           = mset (butlast (discardPile s)) \<and>
         hand (other turn) (drawCard rnd turn s) = hand (other turn) s \<and>
         currentTurn (drawCard rnd turn s) = other turn \<and>
         totalCards (drawCard rnd turn s) = totalCards s \<and>
         currentSuit (drawCard rnd turn s) = currentSuit s \<and>
         status (drawCard rnd turn s) = status s \<and>
         winner (drawCard rnd turn s) = winner s \<and>
         (mset ys = mset (butlast (discardPile s)) \<longrightarrow>
            (\<exists>rnd'. deck (drawCard rnd' turn s) = butlast ys \<and>
                    hand turn (drawCard rnd' turn s) = hand turn s @ [last ys] \<and>
                    discardPile (drawCard rnd' turn s) = [last (discardPile s)]))"
proof -
  let ?d = "discardPile s"
  let ?sh = "shuffle rnd (butlast ?d)"
  have len: "length ?sh = length ?d - 1" by (simp add: length_shuffle)
  then have ne2: "?sh \<noteq> []" using assms(2) by auto
  have ms: "mset (butlast ?sh) + {#last ?sh#} = mset (butlast ?d)"
    using mset_butlast_last [OF ne2] by (simp add: mset_shuffle)
  have tot: "length (butlast ?sh) + 1 + 1 = length ?d"
    using len assms(2) by simp
  note step = drawCard_reshuffle [OF assms]
  have base: "discardPile (drawCard rnd turn s) = [last (discardPile s)] \<and>
         deck (drawCard rnd turn s) = butlast (shuffle rnd (butlast (discardPile s))) \<and>
         hand turn (drawCard rnd turn s)
           = hand turn s @ [last (shuffle rnd (butlast (discardPile s)))] \<and>
         mset (deck (drawCard rnd turn s))
           + {#last (shuffle rnd (butlast (discardPile s)))#}
           = mset (butlast (discardPile s)) \<and>
         hand (other turn) (drawCard rnd turn s) = hand (other turn) s \<and>
         currentTurn (drawCard rnd turn s) = other turn \<and>
         totalCards (drawCard rnd turn s) = totalCards s \<and>
         currentSuit (drawCard rnd turn s) = currentSuit s \<and>
         status (drawCard rnd turn s) = status s \<and>
         winner (drawCard rnd turn s) = winner s"
    using ms tot assms(1) step [of rnd turn]
    by (cases turn) (simp_all add: setHand_def hand_def totalCards_def)
  have onto: "mset ys = mset (butlast (discardPile s)) \<longrightarrow>
            (\<exists>rnd'. deck (drawCard rnd' turn s) = butlast ys \<and>
                    hand turn (drawCard rnd' turn s) = hand turn s @ [last ys] \<and>
                    discardPile (drawCard rnd' turn s) = [last (discardPile s)])"
  proof
    assume "mset ys = mset (butlast (discardPile s))"
    then obtain rnd' where r: "shuffle rnd' (butlast (discardPile s)) = ys"
      using shuffle_onto by blast
    have "deck (drawCard rnd' turn s) = butlast ys \<and>
          hand turn (drawCard rnd' turn s) = hand turn s @ [last ys] \<and>
          discardPile (drawCard rnd' turn s) = [last (discardPile s)]"
      using step [of rnd' turn] r
      by (cases turn) (simp_all add: setHand_def hand_def)
    then show "\<exists>rnd'. deck (drawCard rnd' turn s) = butlast ys \<and>
          hand turn (drawCard rnd' turn s) = hand turn s @ [last ys] \<and>
          discardPile (drawCard rnd' turn s) = [last (discardPile s)]" by blast
  qed
  from base onto show ?thesis by blast
qed

theorem draw_reshuffles_discards_witness:
  "deck emptyDeck = [] \<and> 1 < length (discardPile emptyDeck)
   \<and> discardPile (drawCard (\<lambda>_. 0) PLAYER emptyDeck) = [newCard HEARTS KING]
   \<and> deck (drawCard (\<lambda>_. 0) PLAYER emptyDeck) = [newCard CLUBS TWO, newCard HEARTS TWO]
   \<and> playerHand (drawCard (\<lambda>_. 0) PLAYER emptyDeck) = [newCard SPADES THREE, newCard SPADES ACE]
   \<and> currentTurn (drawCard (\<lambda>_. 0) PLAYER emptyDeck) = AI
   \<and> totalCards (drawCard (\<lambda>_. 0) PLAYER emptyDeck) = 6
   \<and> (\<exists>rnd'. deck (drawCard rnd' PLAYER emptyDeck) = [newCard HEARTS TWO, newCard SPADES ACE]
          \<and> playerHand (drawCard rnd' PLAYER emptyDeck) = [newCard SPADES THREE, newCard CLUBS TWO])"
proof -
  let ?ys = "[newCard HEARTS TWO, newCard SPADES ACE, newCard CLUBS TWO]"
  have a: "deck emptyDeck = []" by (simp add: emptyDeck_def)
  have b: "1 < length (discardPile emptyDeck)" by (simp add: emptyDeck_def)
  note t = draw_reshuffles_discards [OF a b, of "\<lambda>_. 0" PLAYER ?ys]
  have l: "[last (discardPile emptyDeck)] = [newCard HEARTS KING]" by (simp add: emptyDeck_def)
  have o: "other PLAYER = AI" by simp
  have n: "totalCards emptyDeck = 6" by (simp add: emptyDeck_def totalCards_def)
  have sh: "shuffle (\<lambda>_. 0) (butlast (discardPile emptyDeck))
      = [newCard CLUBS TWO, newCard HEARTS TWO, newCard SPADES ACE]" by code_simp
  have hp: "hand PLAYER = playerHand" by (rule ext) (simp add: hand_def)
  have ph: "playerHand emptyDeck = [newCard SPADES THREE]" by (simp add: emptyDeck_def)
  have m: "mset ?ys = mset (butlast (discardPile emptyDeck))" by (simp add: emptyDeck_def)
  have x: "discardPile (drawCard (\<lambda>_. 0) PLAYER emptyDeck) = [newCard HEARTS KING]"
    using t [THEN conjunct1] by (simp only: l)
  have d: "deck (drawCard (\<lambda>_. 0) PLAYER emptyDeck) = [newCard CLUBS TWO, newCard HEARTS TWO]"
    using t [THEN conjunct2, THEN conjunct1] by (simp add: sh)
  have h: "playerHand (drawCard (\<lambda>_. 0) PLAYER emptyDeck)
      = [newCard SPADES THREE, newCard SPADES ACE]"
    using t [THEN conjunct2, THEN conjunct2, THEN conjunct1]
    by (simp add: sh hp ph)
  have y: "currentTurn (drawCard (\<lambda>_. 0) PLAYER emptyDeck) = AI"
    using t [THEN conjunct2, THEN conjunct2, THEN conjunct2, THEN conjunct2, THEN conjunct2,
        THEN conjunct1] by (simp only: o)
  have z: "totalCards (drawCard (\<lambda>_. 0) PLAYER emptyDeck) = 6"
    using t [THEN conjunct2, THEN conjunct2, THEN conjunct2, THEN conjunct2, THEN conjunct2,
        THEN conjunct2, THEN conjunct1] by (simp only: n)
  have "\<exists>rnd'. deck (drawCard rnd' PLAYER emptyDeck) = butlast ?ys \<and>
          hand PLAYER (drawCard rnd' PLAYER emptyDeck) = hand PLAYER emptyDeck @ [last ?ys] \<and>
          discardPile (drawCard rnd' PLAYER emptyDeck) = [last (discardPile emptyDeck)]"
    by (rule t [THEN conjunct2, THEN conjunct2, THEN conjunct2, THEN conjunct2, THEN conjunct2,
        THEN conjunct2, THEN conjunct2, THEN conjunct2, THEN conjunct2, THEN conjunct2,
        THEN mp, OF m])
  then obtain rnd' where "deck (drawCard rnd' PLAYER emptyDeck) = butlast ?ys"
    and "hand PLAYER (drawCard rnd' PLAYER emptyDeck) = hand PLAYER emptyDeck @ [last ?ys]"
    by blast
  then have "deck (drawCard rnd' PLAYER emptyDeck) = [newCard HEARTS TWO, newCard SPADES ACE]
      \<and> playerHand (drawCard rnd' PLAYER emptyDeck) = [newCard SPADES THREE, newCard CLUBS TWO]"
    by (simp add: hp ph)
  then have e: "\<exists>rnd'. deck (drawCard rnd' PLAYER emptyDeck) = [newCard HEARTS TWO, newCard SPADES ACE]
      \<and> playerHand (drawCard rnd' PLAYER emptyDeck) = [newCard SPADES THREE, newCard CLUBS TWO]"
    by blast
  show ?thesis
    by (rule conjI [OF a conjI [OF b conjI [OF x conjI [OF d conjI [OF h conjI [OF y conjI [OF z e]]]]]]])
qed



section \<open>Declaring a suit\<close>

text \<open>
  C7, as stated, fails. \<open>selectSuit\<close> has no failing case: in a state whose status is
  playing it declares the suit and gives the turn to the computer.
\<close>

theorem selectSuit_unchecked_counterexample:
  "status midGame \<noteq> CHOOSING_SUIT
   \<and> selectSuit HEARTS midGame \<noteq> midGame
   \<and> currentSuit (selectSuit HEARTS midGame) = Some HEARTS
   \<and> currentTurn (selectSuit HEARTS midGame) = AI"
  by (simp add: midGame_def selectSuit_def)

text \<open>
  C7, amended. When the player plays an eight and cards of another identity are left in
  the hand, the status becomes choosing suit and the turn stays with the player.
  \<open>selectSuit\<close> checks nothing: in every status it sets the declared suit, sets the status
  to playing and gives the turn to the computer, and leaves the piles, the hands and the
  winner as they are. The check is its caller's: the suit buttons act in the status
  choosing suit only, and in any other status the state is unchanged.
\<close>

theorem eight_then_selectSuit:
  "(rank crd = EIGHT \<and> filter (\<lambda>c. card_id c \<noteq> card_id crd) (playerHand s) \<noteq> [] \<longrightarrow>
      status (playCard crd PLAYER s) = CHOOSING_SUIT \<and>
      currentTurn (playCard crd PLAYER s) = PLAYER) \<and>
   currentSuit (selectSuit su s) = Some su \<and>
   status (selectSuit su s) = PLAYING \<and>
   currentTurn (selectSuit su s) = AI \<and>
   deck (selectSuit su s) = deck s \<and>
   discardPile (selectSuit su s) = discardPile s \<and>
   playerHand (selectSuit su s) = playerHand s \<and>
   aiHand (selectSuit su s) = aiHand s \<and>
   winner (selectSuit su s) = winner s \<and>
   (status s = CHOOSING_SUIT \<longrightarrow> clickSuit su s = selectSuit su s) \<and>
   (status s \<noteq> CHOOSING_SUIT \<longrightarrow> clickSuit su s = s)"
  by (simp add: playCard_def Let_def hand_def setHand_def selectSuit_def clickSuit_def)

theorem eight_then_selectSuit_witness:
  "status (playCard (newCard CLUBS EIGHT) PLAYER midGame) = CHOOSING_SUIT
   \<and> currentTurn (playCard (newCard CLUBS EIGHT) PLAYER midGame) = PLAYER
   \<and> clickSuit DIAMONDS (playCard (newCard CLUBS EIGHT) PLAYER midGame)
       = selectSuit DIAMONDS (playCard (newCard CLUBS EIGHT) PLAYER midGame)
   \<and> clickSuit DIAMONDS midGame = midGame"
proof -
  let ?c = "newCard CLUBS EIGHT"
  let ?s = "playCard ?c PLAYER midGame"
  have g: "rank ?c = EIGHT \<and> filter (\<lambda>c. card_id c \<noteq> card_id ?c) (playerHand midGame) \<noteq> []"
    by (simp add: midGame_def newCard_def)
  note t = eight_then_selectSuit [of ?c midGame DIAMONDS]
  note u = eight_then_selectSuit [of ?c ?s DIAMONDS]
  have x: "status ?s = CHOOSING_SUIT \<and> currentTurn ?s = PLAYER"
    by (rule t [THEN conjunct1, THEN mp, OF g])
  have y: "clickSuit DIAMONDS ?s = selectSuit DIAMONDS ?s"
    by (rule u [THEN conjunct2, THEN conjunct2, THEN conjunct2, THEN conjunct2, THEN conjunct2,
          THEN conjunct2, THEN conjunct2, THEN conjunct2, THEN conjunct2, THEN conjunct1,
          THEN mp, OF x [THEN conjunct1]])
  have n: "status midGame \<noteq> CHOOSING_SUIT" by (simp add: midGame_def)
  have z: "clickSuit DIAMONDS midGame = midGame"
    by (rule t [THEN conjunct2, THEN conjunct2, THEN conjunct2, THEN conjunct2, THEN conjunct2,
          THEN conjunct2, THEN conjunct2, THEN conjunct2, THEN conjunct2, THEN conjunct2,
          THEN mp, OF n])
  show ?thesis
    by (rule conjI [OF x [THEN conjunct1] conjI [OF x [THEN conjunct2] conjI [OF y z]]])
qed

end
